theory Spec2Isabelle
  imports Complex_Main "HOL-Library.Sublist"
begin

section \<open>Video search engine: time codes, frame extraction, caption matching, collage\<close>

text \<open>
  A shallow embedding of three Python modules: \<^verbatim>\<open>image_helpers.py\<close> (collage layout),
  \<^verbatim>\<open>video_search_by_image.py\<close> (fuzzy caption matching) and
  \<^verbatim>\<open>video_search_by_video.py\<close> (poll loop, time-code parsing, frame extraction).

  Conventions. Exceptions are values of \<open>py_error\<close>. Printing appends to a list of lines.
  Library calls whose code is not part of the repository (PIL, OpenCV, fuzzywuzzy, the
  Gemini client, the builtin \<^verbatim>\<open>float\<close>) are parameters of the model. Python floats are
  idealised: a finite float is a \<open>real\<close> and its arithmetic is exact (IEEE rounding and
  overflow of finite values are not modelled); the non-finite values \<^verbatim>\<open>inf\<close>, \<^verbatim>\<open>-inf\<close> and
  \<^verbatim>\<open>nan\<close> are kept, because \<^verbatim>\<open>int()\<close> raises on them.
\<close>

datatype py_error =
    FileNotFoundError
  | ValueError
  | OverflowError
  | OSError
  | ImageOpenError

subsection \<open>image\_helpers.py: the collage\<close>

text \<open>
  \<^verbatim>\<open>int(num_images ** 0.5)\<close>: the integer part of the square root, computed here by a
  downward search so that it evaluates; \<open>int_sqrt_floor\<close> below shows it is
  \<open>\<lfloor>sqrt n\<rfloor>\<close>.
\<close>

fun sqrt_search :: "nat \<Rightarrow> nat \<Rightarrow> nat" where
  "sqrt_search n 0 = 0"
| "sqrt_search n (Suc k) = (if Suc k * Suc k \<le> n then Suc k else sqrt_search n k)"

definition int_sqrt :: "nat \<Rightarrow> nat" where
  "int_sqrt n = sqrt_search n n"

text \<open>Lines 41-47 of \<^verbatim>\<open>create_collage\<close>: the grid, as \<open>(rows, cols)\<close>.\<close>

definition grid :: "nat \<Rightarrow> nat \<times> nat" where
  "grid num_images =
     (let cols = (if num_images = 1 then 1 else int_sqrt num_images + 1);
          rows = num_images div cols;
          rows = (if num_images mod cols \<noteq> 0 then rows + 1 else rows)
      in (rows, cols))"

text \<open>
  A pasted tile: the image, the size it was resized to and the offset it was pasted at.
  The canvas records its size and the pastes in order. \<^verbatim>\<open>resize\<close>, \<^verbatim>\<open>paste\<close> and \<^verbatim>\<open>save\<close>
  are taken to succeed.
\<close>

record 'img tile =
  source :: 'img
  tile_width :: int
  tile_height :: int
  x_pos :: int
  y_pos :: int

record 'img canvas =
  canvas_width :: int
  canvas_height :: int
  tiles :: "'img tile list"

text \<open>Lines 61-68: the paste loop, carrying \<open>x_offset\<close> and \<open>y_offset\<close>.\<close>

fun paste_all :: "int \<Rightarrow> int \<Rightarrow> int \<Rightarrow> int \<Rightarrow> int \<Rightarrow> 'img list \<Rightarrow> 'img tile list" where
  "paste_all collage_width thumb_width thumb_height x_offset y_offset [] = []"
| "paste_all collage_width thumb_width thumb_height x_offset y_offset (img # imgs) =
     \<lparr>source = img, tile_width = thumb_width, tile_height = thumb_height,
      x_pos = x_offset, y_pos = y_offset\<rparr> #
     (let x_offset = x_offset + thumb_width
      in if x_offset \<ge> collage_width
         then paste_all collage_width thumb_width thumb_height 0 (y_offset + thumb_height) imgs
         else paste_all collage_width thumb_width thumb_height x_offset y_offset imgs)"

text \<open>Lines 29-32: \<^verbatim>\<open>Image.open\<close> on each path; the first failure raises.\<close>

fun load_images :: "(string \<Rightarrow> 'img option) \<Rightarrow> string list \<Rightarrow> py_error + 'img list" where
  "load_images image_open [] = Inr []"
| "load_images image_open (image_path # rest) =
     (case image_open image_path of
        None \<Rightarrow> Inl ImageOpenError
      | Some image_PIL \<Rightarrow>
          (case load_images image_open rest of
             Inl e \<Rightarrow> Inl e
           | Inr images \<Rightarrow> Inr (image_PIL # images)))"

record 'img collage_effects =
  printed :: "string list"
  saved :: "(string \<times> 'img canvas) option"
  browser :: "string option"

definition no_effects :: "'img collage_effects" where
  "no_effects = \<lparr>printed = [], saved = None, browser = None\<rparr>"

definition create_collage ::
  "(string \<Rightarrow> 'img option) \<Rightarrow> string list \<Rightarrow> int \<Rightarrow> int \<Rightarrow> string \<Rightarrow>
     py_error + 'img collage_effects" where
  "create_collage image_open images_path_list collage_width collage_height output_file =
     (case load_images image_open images_path_list of
        Inl e \<Rightarrow> Inl e
      | Inr images \<Rightarrow>
          (let num_images = length images in
           if num_images = 0
           then Inr (no_effects\<lparr>printed := [''No images found for the given search term.'']\<rparr>)
           else
             (let (rows, cols) = grid num_images;
                  thumb_width = collage_width div int cols;
                  thumb_height = collage_height div int rows;
                  collage = \<lparr>canvas_width = collage_width, canvas_height = collage_height,
                             tiles = paste_all collage_width thumb_width thumb_height 0 0 images\<rparr>
              in Inr (no_effects\<lparr>printed := [''Collage created and saved to '' @ output_file],
                                 saved := Some (output_file, collage)\<rparr>))))"

definition generate_collage ::
  "(string \<Rightarrow> 'img option) \<Rightarrow> string list \<Rightarrow> py_error + 'img collage_effects" where
  "generate_collage image_open images_path_list =
     (if images_path_list = []
      then Inr (no_effects\<lparr>printed := [''No images found for the given search term.'']\<rparr>)
      else
        (let collage_width = 800;
             collage_height = 600;
             output_file = ''collage.png''
         in case create_collage image_open images_path_list collage_width collage_height output_file of
              Inl e \<Rightarrow> Inl e
            | Inr fx \<Rightarrow> Inr (fx\<lparr>browser := Some output_file\<rparr>)))"

subsection \<open>video\_search\_by\_image.py: the caption matcher\<close>

text \<open>\<^verbatim>\<open>str.lower\<close>, on ASCII letters (a \<open>char\<close> is a byte).\<close>

definition lower_char :: "char \<Rightarrow> char" where
  "lower_char c =
     (let n = (of_char c :: nat) in if 65 \<le> n \<and> n \<le> 90 then char_of (n + 32) else c)"

definition lower :: "string \<Rightarrow> string" where
  "lower s = map lower_char s"

text \<open>
  What \<^verbatim>\<open>open\<close> and \<^verbatim>\<open>json.load\<close> find at \<^verbatim>\<open>OUTPUT_JSON_FILE_NAME\<close>: no file, a file
  that is not JSON, or the captions as the dictionary's items in order.
\<close>

datatype caption_file = Missing | Invalid | Captions "(string \<times> string) list"

text \<open>
  Lines 56-59: the loop over the items. \<^verbatim>\<open>fuzz.partial_ratio\<close> and the constant
  \<^verbatim>\<open>THRESHOLD\<close> of the absent \<^verbatim>\<open>config\<close> module are parameters.
\<close>

fun match_loop ::
  "(string \<Rightarrow> string \<Rightarrow> int) \<Rightarrow> int \<Rightarrow> string \<Rightarrow> (string \<times> string) list \<Rightarrow> string list \<Rightarrow> string list" where
  "match_loop partial_ratio THRESHOLD input_word [] matched_scenes = matched_scenes"
| "match_loop partial_ratio THRESHOLD input_word ((scene_path, caption) # rest) matched_scenes =
     (let similarity = partial_ratio (lower input_word) (lower caption)
      in if similarity \<ge> THRESHOLD
         then match_loop partial_ratio THRESHOLD input_word rest (matched_scenes @ [scene_path])
         else match_loop partial_ratio THRESHOLD input_word rest matched_scenes)"

text \<open>The result is the printed lines and the returned list \<open>matched_scenes\<close>.\<close>

definition find_matched_captions ::
  "(string \<Rightarrow> string \<Rightarrow> int) \<Rightarrow> int \<Rightarrow> caption_file \<Rightarrow> string \<Rightarrow>
     py_error + (string list \<times> string list)" where
  "find_matched_captions partial_ratio THRESHOLD json_file input_word =
     (case json_file of
        Missing \<Rightarrow> Inl FileNotFoundError
      | Invalid \<Rightarrow> Inr ([''Error: JSON file is invalid.''], [])
      | Captions scene_captions \<Rightarrow>
          Inr ([], match_loop partial_ratio THRESHOLD input_word scene_captions []))"

text \<open>
  For concrete runs, a scorer in place of \<^verbatim>\<open>fuzz.partial_ratio\<close> (100 when the query
  occurs in the caption, 0 otherwise) and a captions file of two scenes.
\<close>

fun occurs_in :: "string \<Rightarrow> string \<Rightarrow> bool" where
  "occurs_in q [] = (q = [])"
| "occurs_in q (c # cs) = (take (length q) (c # cs) = q \<or> occurs_in q cs)"

definition occurrence_ratio :: "string \<Rightarrow> string \<Rightarrow> int" where
  "occurrence_ratio q caption = (if occurs_in q caption then 100 else 0)"

definition trailer_captions :: caption_file where
  "trailer_captions =
     Captions [(''a'', ''Super Mario Bros trailer''), (''b'', ''unrelated cooking video'')]"

subsection \<open>video\_search\_by\_video.py: the poll loop\<close>

datatype file_state = STATE_UNSPECIFIED | PROCESSING | ACTIVE | FAILED

definition max_retries :: nat where
  "max_retries = 10"

text \<open>
  The loop's variables: the counter, the seconds slept, and for each printed progress line
  the two numbers it shows, \<^verbatim>\<open>retries + 1\<close> and \<^verbatim>\<open>max_retries\<close>.
\<close>

record poll_state =
  retries :: nat
  slept :: nat
  progress :: "(nat \<times> nat) list"

definition poll_start :: poll_state where
  "poll_start = \<lparr>retries = 0, slept = 0, progress = []\<rparr>"

text \<open>
  Lines 68-72. \<open>state_at k\<close> is the state the service reports at the \<open>k\<close>-th look:
  \<open>state_at 0\<close> from \<^verbatim>\<open>upload_file\<close>, \<open>state_at (k + 1)\<close> from the \<open>(k + 1)\<close>-th
  \<^verbatim>\<open>get_file\<close>. The loop may not return: \<open>None\<close> is the run that never leaves it.
\<close>

partial_function (option) poll_loop :: "(nat \<Rightarrow> file_state) \<Rightarrow> poll_state \<Rightarrow> poll_state option" where
  "poll_loop state_at s =
     (if state_at (retries s) \<noteq> ACTIVE
      then poll_loop state_at
             (s\<lparr>progress := progress s @ [(retries s + 1, max_retries)],
                slept := slept s + 15,
                retries := retries s + 1\<rparr>)
      else Some s)"

subsection \<open>video\_search\_by\_video.py: time codes\<close>

text \<open>
  A Python float: a finite value, an infinity with its sign (\<open>True\<close> is positive), or
  not-a-number. Products and sums follow IEEE 754 on the non-finite values.
\<close>

datatype pyfloat = Finite real | Infinite bool | NaN

fun float_mul :: "pyfloat \<Rightarrow> pyfloat \<Rightarrow> pyfloat" where
  "float_mul (Finite a) (Finite b) = Finite (a * b)"
| "float_mul NaN y = NaN"
| "float_mul x NaN = NaN"
| "float_mul (Infinite s) (Finite b) = (if b = 0 then NaN else Infinite (s = (0 < b)))"
| "float_mul (Finite a) (Infinite s) = (if a = 0 then NaN else Infinite (s = (0 < a)))"
| "float_mul (Infinite s) (Infinite t) = Infinite (s = t)"

fun float_add :: "pyfloat \<Rightarrow> pyfloat \<Rightarrow> pyfloat" where
  "float_add (Finite a) (Finite b) = Finite (a + b)"
| "float_add NaN y = NaN"
| "float_add x NaN = NaN"
| "float_add (Infinite s) (Finite b) = Infinite s"
| "float_add (Finite a) (Infinite s) = Infinite s"
| "float_add (Infinite s) (Infinite t) = (if s = t then Infinite s else NaN)"

text \<open>\<^verbatim>\<open>int(x)\<close> on a float: truncation towards zero; it raises on the non-finite values.\<close>

definition trunc :: "real \<Rightarrow> int" where
  "trunc x = (if 0 \<le> x then \<lfloor>x\<rfloor> else \<lceil>x\<rceil>)"

fun py_int :: "pyfloat \<Rightarrow> py_error + int" where
  "py_int (Finite x) = Inr (trunc x)"
| "py_int (Infinite s) = Inl OverflowError"
| "py_int NaN = Inl ValueError"

text \<open>\<^verbatim>\<open>time_point.split(':')\<close>: never empty; the empty string gives one empty field.\<close>

fun split_colon :: "string \<Rightarrow> string list" where
  "split_colon [] = [[]]"
| "split_colon (c # cs) =
     (if c = CHR '':'' then [] # split_colon cs
      else (case split_colon cs of
              [] \<Rightarrow> [[c]]
            | fld # flds \<Rightarrow> (c # fld) # flds))"

text \<open>
  Line 141: \<^verbatim>\<open>sum(float(x) * 60 ** i for i, x in enumerate(reversed(...)))\<close>. The fields
  come in the order \<^verbatim>\<open>reversed\<close> gives them, \<open>i\<close> is the index \<^verbatim>\<open>enumerate\<close> counts and
  \<open>acc\<close> the running total of \<^verbatim>\<open>sum\<close>, which starts at 0. The builtin \<^verbatim>\<open>float\<close> is the
  parameter \<open>to_float\<close>; \<open>None\<close> is its \<^verbatim>\<open>ValueError\<close>, which ends the sum.
\<close>

fun sum_fields :: "(string \<Rightarrow> pyfloat option) \<Rightarrow> nat \<Rightarrow> pyfloat \<Rightarrow> string list \<Rightarrow> pyfloat option" where
  "sum_fields to_float i acc [] = Some acc"
| "sum_fields to_float i acc (x # xs) =
     (case to_float x of
        None \<Rightarrow> None
      | Some v \<Rightarrow> sum_fields to_float (Suc i) (float_add acc (float_mul v (Finite (60 ^ i)))) xs)"

definition time_in_seconds :: "(string \<Rightarrow> pyfloat option) \<Rightarrow> string \<Rightarrow> pyfloat option" where
  "time_in_seconds to_float time_point =
     sum_fields to_float 0 (Finite 0) (rev (split_colon time_point))"

text \<open>
  The builtin \<^verbatim>\<open>float\<close> on the literals used below: an optional sign, then \<^verbatim>\<open>nan\<close>,
  \<^verbatim>\<open>inf\<close> or \<^verbatim>\<open>infinity\<close> in any case, or decimal digits with at most one point and at
  least one digit. Python accepts more (an exponent, underscores, surrounding blanks);
  the theorems below hold for any \<open>to_float\<close>, and this one only serves concrete runs.
\<close>

definition digit_value :: "char \<Rightarrow> nat option" where
  "digit_value c =
     (let n = (of_char c :: nat) in if 48 \<le> n \<and> n \<le> 57 then Some (n - 48) else None)"

fun digits_value :: "string \<Rightarrow> nat \<Rightarrow> nat option" where
  "digits_value [] acc = Some acc"
| "digits_value (c # cs) acc =
     (case digit_value c of
        None \<Rightarrow> None
      | Some d \<Rightarrow> digits_value cs (10 * acc + d))"

definition decimal_value :: "string \<Rightarrow> real option" where
  "decimal_value body =
     (let whole = takeWhile (\<lambda>c. c \<noteq> CHR ''.'') body;
          rest = dropWhile (\<lambda>c. c \<noteq> CHR ''.'') body;
          frac = (case rest of [] \<Rightarrow> [] | point # digits \<Rightarrow> digits)
      in if whole = [] \<and> frac = [] then None
         else (case (digits_value whole 0, digits_value frac 0) of
                 (Some w, Some f) \<Rightarrow> Some (real w + real f / 10 ^ length frac)
               | _ \<Rightarrow> None))"

definition float_decimal :: "string \<Rightarrow> pyfloat option" where
  "float_decimal s =
     (let (positive, body) =
            (case s of
               [] \<Rightarrow> (True, s)
             | c # r \<Rightarrow> if c = CHR ''-'' then (False, r)
                        else if c = CHR ''+'' then (True, r) else (True, s))
      in if lower body = ''nan'' then Some NaN
         else if lower body = ''inf'' \<or> lower body = ''infinity'' then Some (Infinite positive)
         else map_option (\<lambda>v. Finite (if positive then v else - v)) (decimal_value body))"

subsection \<open>video\_search\_by\_video.py: frame extraction\<close>

text \<open>\<^verbatim>\<open>str(n)\<close> for an integer, as the f-string of the file name formats it.\<close>

definition digit_char :: "nat \<Rightarrow> char" where
  "digit_char d = ''0123456789'' ! d"

fun show_nat :: "nat \<Rightarrow> string" where
  "show_nat n = (if n < 10 then [digit_char n] else show_nat (n div 10) @ [digit_char (n mod 10)])"

declare show_nat.simps [simp del]

definition show_int :: "int \<Rightarrow> string" where
  "show_int i = (if i < 0 then CHR ''-'' # show_nat (nat (- i)) else show_nat (nat i))"

text \<open>\<^verbatim>\<open>os.path.join\<close> of two components, on POSIX.\<close>

definition path_join :: "string \<Rightarrow> string \<Rightarrow> string" where
  "path_join a b =
     (if b \<noteq> [] \<and> hd b = CHR ''/'' then b
      else if a = [] \<or> last a = CHR ''/'' then a @ b
      else a @ ''/'' @ b)"

text \<open>Line 151: \<^verbatim>\<open>os.path.join(output_dir, f"frame_{int(time_in_seconds)}s.jpg")\<close>.\<close>

definition frame_path :: "string \<Rightarrow> int \<Rightarrow> string" where
  "frame_path output_dir whole_seconds =
     path_join output_dir (''frame_'' @ show_int whole_seconds @ ''s.jpg'')"

text \<open>
  What the call finds outside itself: whether \<^verbatim>\<open>video_path\<close> exists, whether
  \<^verbatim>\<open>os.makedirs\<close> succeeds, whether the capture opens, the frame rate it reports, what
  \<^verbatim>\<open>video.set(CAP_PROP_POS_FRAMES, n)\<close> followed by \<^verbatim>\<open>video.read()\<close> gives (\<open>None\<close> when
  \<^verbatim>\<open>success\<close> is false), the builtin \<^verbatim>\<open>float\<close>, and the constant \<^verbatim>\<open>EXTRACTED_IMAGES_DIR\<close>
  of the absent \<^verbatim>\<open>config\<close> module.
\<close>

record 'frame video_env =
  path_exists :: bool
  makedirs_ok :: bool
  is_opened :: bool
  frames_per_second :: real
  read_frame :: "int \<Rightarrow> 'frame option"
  to_float :: "string \<Rightarrow> pyfloat option"
  EXTRACTED_IMAGES_DIR :: string

text \<open>
  What the call does: the lines it prints, the frame indices it seeks, the
  \<^verbatim>\<open>cv2.imwrite\<close> calls in order, the local list \<open>extracted_files\<close>, and whether
  \<^verbatim>\<open>video.release()\<close> has run.
\<close>

record 'frame extract_state =
  messages :: "string list"
  seeks :: "int list"
  writes :: "(string \<times> 'frame) list"
  extracted_files :: "string list"
  released :: bool

definition extract_start :: "'frame extract_state" where
  "extract_start = \<lparr>messages = [], seeks = [], writes = [], extracted_files = [], released = False\<rparr>"

text \<open>The files after a sequence of writes: the last write to a path is its content.\<close>

definition file_system :: "(string \<times> 'frame) list \<Rightarrow> string \<rightharpoonup> 'frame" where
  "file_system ws = map_of (rev ws)"

datatype 'a outcome = Returned 'a | Raised py_error

text \<open>
  Lines 139-155, one pass of the loop body: the exception that leaves the loop, if any,
  and the state.
\<close>

definition extract_step ::
  "'frame video_env \<Rightarrow> string \<Rightarrow> 'frame extract_state \<Rightarrow> py_error option \<times> 'frame extract_state" where
  "extract_step env time_point s =
     (case time_in_seconds (to_float env) time_point of
        None \<Rightarrow>
          (None, s\<lparr>messages := messages s @ [''Invalid time point: '' @ time_point @ ''. Skipping.'']\<rparr>)
      | Some t \<Rightarrow>
          (case py_int (float_mul t (Finite (frames_per_second env))) of
             Inl e \<Rightarrow> (Some e, s)
           | Inr frame_number \<Rightarrow>
               (let s = s\<lparr>seeks := seeks s @ [frame_number]\<rparr>
                in case read_frame env frame_number of
                     Some frame \<Rightarrow>
                       (case py_int t of
                          Inl e \<Rightarrow> (Some e, s)
                        | Inr whole_seconds \<Rightarrow>
                            (let output_file = frame_path (EXTRACTED_IMAGES_DIR env) whole_seconds
                             in (None, s\<lparr>writes := writes s @ [(output_file, frame)],
                                         extracted_files := extracted_files s @ [output_file]\<rparr>)))
                   | None \<Rightarrow>
                       (None, s\<lparr>messages := messages s @
                                  [''Warning: Could not extract frame at '' @ time_point @ ''.'']\<rparr>))))"

fun extract_loop ::
  "'frame video_env \<Rightarrow> string list \<Rightarrow> 'frame extract_state \<Rightarrow> py_error option \<times> 'frame extract_state" where
  "extract_loop env [] s = (None, s)"
| "extract_loop env (time_point # rest) s =
     (case extract_step env time_point s of
        (Some e, s') \<Rightarrow> (Some e, s')
      | (None, s') \<Rightarrow> extract_loop env rest s')"

text \<open>The whole call: how it ends (the returned value or the exception) and the final state.\<close>

definition extract_frames_from_video ::
  "'frame video_env \<Rightarrow> string list \<Rightarrow> string outcome \<times> 'frame extract_state" where
  "extract_frames_from_video env time_points =
     (if \<not> path_exists env then (Raised FileNotFoundError, extract_start)
      else if \<not> makedirs_ok env then (Raised OSError, extract_start)
      else if \<not> is_opened env then (Raised ValueError, extract_start)
      else (case extract_loop env time_points extract_start of
              (Some e, s) \<Rightarrow> (Raised e, s)
            | (None, s) \<Rightarrow> (Returned (EXTRACTED_IMAGES_DIR env), s\<lparr>released := True\<rparr>)))"


text \<open>
  A video for concrete runs: 250 frames at 25 frames per second, frame \<open>n\<close> decoding to
  the number \<open>n\<close>, frames written to the directory \<^verbatim>\<open>extracted_images\<close>.
\<close>

definition trailer :: "int video_env" where
  "trailer =
     \<lparr>path_exists = True, makedirs_ok = True, is_opened = True, frames_per_second = 25,
      read_frame = (\<lambda>n. if 0 \<le> n \<and> n < 250 then Some n else None),
      to_float = float_decimal, EXTRACTED_IMAGES_DIR = ''extracted_images''\<rparr>"

subsection \<open>The grid\<close>

lemma sqrt_search_le: "sqrt_search n k * sqrt_search n k \<le> n"
  by (induction k) auto

lemma sqrt_search_bound: "sqrt_search n k \<le> k"
  by (induction k) auto

lemma sqrt_search_max: "j \<le> k \<Longrightarrow> j * j \<le> n \<Longrightarrow> j \<le> sqrt_search n k"
proof (induction k)
  case 0
  then show ?case by simp
next
  case (Suc k)
  show ?case
  proof (cases "Suc k * Suc k \<le> n")
    case True
    with Suc.prems show ?thesis by simp
  next
    case False
    with Suc.prems have "j \<noteq> Suc k" by auto
    with Suc.prems have "j \<le> k" by simp
    with Suc.IH Suc.prems False show ?thesis by simp
  qed
qed

lemma int_sqrt_lower: "int_sqrt n * int_sqrt n \<le> n"
  by (simp add: int_sqrt_def sqrt_search_le)

lemma int_sqrt_upper: "n < (int_sqrt n + 1) * (int_sqrt n + 1)"
proof (rule ccontr)
  assume "\<not> n < (int_sqrt n + 1) * (int_sqrt n + 1)"
  then have sq: "(int_sqrt n + 1) * (int_sqrt n + 1) \<le> n" by simp
  have "int_sqrt n + 1 \<le> (int_sqrt n + 1) * (int_sqrt n + 1)" by simp
  with sq have "int_sqrt n + 1 \<le> n" by linarith
  from sqrt_search_max [OF this sq] show False by (simp add: int_sqrt_def)
qed

lemma int_sqrt_floor: "int_sqrt n = nat \<lfloor>sqrt (real n)\<rfloor>"
proof -
  let ?k = "int_sqrt n"
  have "real (?k * ?k) \<le> real n"
    using int_sqrt_lower [of n] of_nat_le_iff by blast
  then have "(real ?k)\<^sup>2 \<le> real n" by (simp add: power2_eq_square)
  then have lo: "real ?k \<le> sqrt (real n)" by (simp add: real_le_rsqrt)
  have "real n < real ((?k + 1) * (?k + 1))"
    using int_sqrt_upper [of n] of_nat_less_iff by blast
  also have "real ((?k + 1) * (?k + 1)) = (real ?k + 1)\<^sup>2"
    by (simp add: power2_eq_square algebra_simps)
  finally have "real n < (real ?k + 1)\<^sup>2" .
  then have hi: "sqrt (real n) < real ?k + 1" by (simp add: real_less_lsqrt)
  have "\<lfloor>sqrt (real n)\<rfloor> = int ?k"
    using lo hi by (simp add: floor_eq_iff)
  then show ?thesis by simp
qed

lemma grid_cover: "1 \<le> n \<Longrightarrow> n \<le> fst (grid n) * snd (grid n)"
proof -
  assume "1 \<le> n"
  define c where "c = (if n = 1 then 1 else int_sqrt n + 1)"
  have cpos: "0 < c" by (simp add: c_def)
  have split: "n = (n div c) * c + n mod c" by simp
  have "n mod c < c" using cpos by simp
  with split have "n \<le> (n div c) * c + c" by linarith
  then have up: "n \<le> (n div c + 1) * c" by (simp add: add_mult_distrib)
  have "n mod c = 0 \<Longrightarrow> n \<le> (n div c) * c" using split by simp
  with up have le: "n \<le> (if n mod c \<noteq> 0 then n div c + 1 else n div c) * c"
    by (cases "n mod c = 0") simp_all
  have "grid n = (if n mod c \<noteq> 0 then n div c + 1 else n div c, c)"
    by (simp add: grid_def Let_def c_def)
  with le show ?thesis by simp
qed

text \<open>
  C2. For every image count \<open>n \<ge> 1\<close> the grid has \<open>cols = 1\<close> when \<open>n = 1\<close> and
  \<open>cols = \<lfloor>sqrt n\<rfloor> + 1\<close> otherwise, \<open>rows = n div cols\<close> plus one when
  \<open>n mod cols \<noteq> 0\<close>, and \<open>rows * cols \<ge> n\<close>; the grids of 5, 1 and 10 images are
  \<open>3 \<times> 2\<close>, \<open>1 \<times> 1\<close> and \<open>4 \<times> 3\<close> (columns by rows).
\<close>

theorem grid_layout:
  "1 \<le> n \<Longrightarrow>
     snd (grid n) = (if n = 1 then 1 else nat \<lfloor>sqrt (real n)\<rfloor> + 1) \<and>
     fst (grid n) = n div snd (grid n) + (if n mod snd (grid n) \<noteq> 0 then 1 else 0) \<and>
     n \<le> fst (grid n) * snd (grid n) \<and>
     grid 5 = (2, 3) \<and> grid 1 = (1, 1) \<and> grid 10 = (3, 4)"
proof -
  assume n: "1 \<le> n"
  have cols: "snd (grid n) = (if n = 1 then 1 else nat \<lfloor>sqrt (real n)\<rfloor> + 1)"
    by (simp add: grid_def Let_def int_sqrt_floor)
  have rows: "fst (grid n) = n div snd (grid n) + (if n mod snd (grid n) \<noteq> 0 then 1 else 0)"
    by (simp add: grid_def Let_def)
  have g5: "grid 5 = (2, 3)" by code_simp
  have g1: "grid 1 = (1, 1)" by code_simp
  have g10: "grid 10 = (3, 4)" by code_simp
  from cols rows grid_cover [OF n] g5 g1 g10 show ?thesis by blast
qed

theorem grid_layout_witness:
  "(1::nat) \<le> 7 \<and> grid 7 = (3, 3) \<and> nat \<lfloor>sqrt (real 7)\<rfloor> + 1 = 3 \<and> (7::nat) \<le> 3 * 3"
proof -
  have h: "(1::nat) \<le> 7" by simp
  have g: "grid 7 = (3, 3)" by code_simp
  from grid_layout [OF h] g show ?thesis by simp
qed

subsection \<open>The empty collage\<close>

text \<open>
  C7. Given an empty sequence of image paths, \<^verbatim>\<open>generate_collage\<close> returns without an
  exception, having printed its notice and nothing else: no file is saved and no viewer
  is opened, whatever \<^verbatim>\<open>Image.open\<close> would do.
\<close>

theorem generate_collage_empty:
  "generate_collage image_open [] =
     Inr \<lparr>printed = [''No images found for the given search term.''],
          saved = None, browser = None\<rparr>"
  by (simp add: generate_collage_def no_effects_def)

subsection \<open>The caption matcher\<close>

lemma match_loop_filter:
  "match_loop pr th w caps acc =
     acc @ map fst (filter (\<lambda>(scene, caption). pr (lower w) (lower caption) \<ge> th) caps)"
  by (induction caps arbitrary: acc) (auto simp: Let_def)

lemma subseq_filter_weaker:
  "(\<And>x. P x \<Longrightarrow> Q x) \<Longrightarrow> subseq (map f (filter P xs)) (map f (filter Q xs))"
  by (induction xs) auto

text \<open>
  C6. For a fixed query and captions file, raising the threshold never adds a scene: when
  \<open>t1 \<le> t2\<close>, the scenes returned at \<open>t2\<close> are a subsequence of those returned at
  \<open>t1\<close>, so each of them is returned at \<open>t1\<close> and there are no more of them.
\<close>

theorem match_threshold_monotone:
  assumes "t1 \<le> t2"
    and "find_matched_captions pr t2 json_file w = Inr (out2, m2)"
  shows "\<exists>out1 m1. find_matched_captions pr t1 json_file w = Inr (out1, m1) \<and>
           subseq m2 m1 \<and> set m2 \<subseteq> set m1 \<and> length m2 \<le> length m1"
proof (cases json_file)
  case Missing
  with assms(2) show ?thesis by (simp add: find_matched_captions_def)
next
  case Invalid
  with assms(2) show ?thesis by (auto simp: find_matched_captions_def)
next
  case (Captions caps)
  let ?at = "\<lambda>t. map fst (filter (\<lambda>(scene, caption). pr (lower w) (lower caption) \<ge> t) caps)"
  from Captions assms(2) have m2: "m2 = ?at t2"
    by (simp add: find_matched_captions_def match_loop_filter)
  have r1: "find_matched_captions pr t1 json_file w = Inr ([], ?at t1)"
    using Captions by (simp add: find_matched_captions_def match_loop_filter)
  have sub: "subseq (?at t2) (?at t1)"
    using assms(1) by (intro subseq_filter_weaker) auto
  have sets: "set (?at t2) \<subseteq> set (?at t1)"
  proof
    fix x assume "x \<in> set (?at t2)"
    with list_emb_set [OF sub] obtain y where "y \<in> set (?at t1)" "x = y" by blast
    then show "x \<in> set (?at t1)" by simp
  qed
  from sub have len: "length (?at t2) \<le> length (?at t1)"
    by (rule list_emb_length)
  from r1 sub sets len show ?thesis
    unfolding m2 by blast
qed

theorem match_threshold_monotone_witness:
  "(0::int) \<le> 60 \<and>
   find_matched_captions occurrence_ratio 60 trailer_captions ''Mario'' = Inr ([], [''a'']) \<and>
   (\<exists>out1 m1. find_matched_captions occurrence_ratio 0 trailer_captions ''Mario'' = Inr (out1, m1) \<and>
      subseq [''a''] m1 \<and> set [''a''] \<subseteq> set m1 \<and> length [''a''] \<le> length m1)"
proof -
  have h1: "(0::int) \<le> 60" by simp
  have h2: "find_matched_captions occurrence_ratio 60 trailer_captions ''Mario'' = Inr ([], [''a''])"
    by code_simp
  from match_threshold_monotone [OF h1 h2] h1 h2 show ?thesis by blast
qed

subsection \<open>Time codes\<close>





lemmas float_decimal_defs =
  float_decimal_def decimal_value_def digit_value_def lower_def lower_char_def



subsection \<open>One pass of the extraction loop\<close>



lemma step_saved:
  "time_in_seconds (to_float env) tp = Some (Finite v) \<Longrightarrow>
   read_frame env (trunc (v * frames_per_second env)) = Some frame \<Longrightarrow>
   extract_step env tp s =
     (None, s\<lparr>seeks := seeks s @ [trunc (v * frames_per_second env)],
              writes := writes s @ [(frame_path (EXTRACTED_IMAGES_DIR env) (trunc v), frame)],
              extracted_files := extracted_files s @
                [frame_path (EXTRACTED_IMAGES_DIR env) (trunc v)]\<rparr>)"
  by (simp add: extract_step_def Let_def)

lemma step_released: "released (snd (extract_step env tp s)) = released s"
  by (simp add: extract_step_def Let_def split: option.splits sum.splits)

lemma loop_released: "released (snd (extract_loop env tps s)) = released s"
proof (induction tps arbitrary: s)
  case Nil
  then show ?case by simp
next
  case (Cons tp tps)
  obtain e s' where st: "extract_step env tp s = (e, s')" by (cases "extract_step env tp s")
  with step_released [of env tp s] have "released s' = released s" by simp
  with Cons.IH [of s'] st show ?case by (cases e) simp_all
qed



lemma loop_append:
  "extract_loop env (xs @ ys) s =
     (case extract_loop env xs s of
        (Some e, s') \<Rightarrow> (Some e, s')
      | (None, s') \<Rightarrow> extract_loop env ys s')"
proof (induction xs arbitrary: s)
  case Nil
  then show ?case by simp
next
  case (Cons x xs)
  obtain e s' where st: "extract_step env x s = (e, s')" by (cases "extract_step env x s")
  with Cons.IH [of s'] show ?case by (cases e) simp_all
qed

lemma step_grows:
  "\<exists>W E. writes (snd (extract_step env tp s)) = writes s @ W \<and>
         extracted_files (snd (extract_step env tp s)) = extracted_files s @ E"
  by (simp add: extract_step_def Let_def split: option.splits sum.splits)

lemma loop_grows:
  "\<exists>W E. writes (snd (extract_loop env tps s)) = writes s @ W \<and>
         extracted_files (snd (extract_loop env tps s)) = extracted_files s @ E"
proof (induction tps arbitrary: s)
  case Nil
  then show ?case by simp
next
  case (Cons tp tps)
  obtain e s' where st: "extract_step env tp s = (e, s')" by (cases "extract_step env tp s")
  from step_grows [of env tp s] st obtain W E
    where s': "writes s' = writes s @ W" "extracted_files s' = extracted_files s @ E" by auto
  show ?case
  proof (cases e)
    case None
    from Cons.IH [of s'] obtain W' E'
      where "writes (snd (extract_loop env tps s')) = writes s' @ W'"
        "extracted_files (snd (extract_loop env tps s')) = extracted_files s' @ E'" by blast
    with s' st None show ?thesis by simp
  next
    case (Some err)
    with s' st show ?thesis by simp
  qed
qed

subsection \<open>The frame index\<close>


lemmas trailer_run_defs =
  extract_frames_from_video_def extract_step_def extract_start_def trailer_def
  time_in_seconds_def float_decimal_defs trunc_def frame_path_def path_join_def show_int_def

lemma show_nat_digit: "n < 10 \<Longrightarrow> show_nat n = [digit_char n]"
  by (simp add: show_nat.simps)



subsection \<open>What the call returns\<close>





subsection \<open>Failures of one offset\<close>



subsection \<open>Releasing the video\<close>

text \<open>
  C8 (as the code has it). \<^verbatim>\<open>video.release()\<close> has run when the call ends exactly when
  the call returns: on the normal path the handle is released before the return, and on
  every path that ends in an exception, before or inside the loop, it is not.
\<close>

theorem release_iff_returned:
  "released (snd (extract_frames_from_video env tps)) =
     (fst (extract_frames_from_video env tps) = Returned (EXTRACTED_IMAGES_DIR env))"
proof -
  obtain e s where run: "extract_loop env tps extract_start = (e, s)"
    by (cases "extract_loop env tps extract_start")
  with loop_released [of env tps extract_start] have "released s = False"
    by (simp add: extract_start_def)
  with run show ?thesis
    by (cases e) (simp_all add: extract_frames_from_video_def extract_start_def)
qed

text \<open>
  \<^verbatim>\<open>float('nan')\<close> is a float, so the \<^verbatim>\<open>try\<close> of line 139 lets it through, and
  \<^verbatim>\<open>int()\<close> on line 146 raises \<^verbatim>\<open>ValueError\<close> outside it: the call ends partway
  through the batch, one frame written, without \<^verbatim>\<open>video.release()\<close>.
\<close>

theorem release_on_exception_counterexample:
  "fst (extract_frames_from_video trailer [''00:01'', ''nan'']) = Raised ValueError \<and>
   extracted_files (snd (extract_frames_from_video trailer [''00:01'', ''nan''])) =
     [''extracted_images/frame_1s.jpg''] \<and>
   released (snd (extract_frames_from_video trailer [''00:01'', ''nan''])) = False"
  by (simp add: trailer_run_defs Let_def show_nat_digit digit_char_def)

subsection \<open>Two offsets within the same second\<close>

lemma loop_two_saved:
  assumes ok: "fst (extract_loop env (pre @ tp1 # mid @ tp2 # post) s) = None"
    and t1: "time_in_seconds (to_float env) tp1 = Some (Finite v1)"
    and f1: "read_frame env (trunc (v1 * frames_per_second env)) = Some frame1"
    and t2: "time_in_seconds (to_float env) tp2 = Some (Finite v2)"
    and f2: "read_frame env (trunc (v2 * frames_per_second env)) = Some frame2"
  shows "\<exists>W0 W1 W2 E0 E1 E2.
           writes (snd (extract_loop env (pre @ tp1 # mid @ tp2 # post) s)) =
             writes s @ W0 @ (frame_path (EXTRACTED_IMAGES_DIR env) (trunc v1), frame1) # W1 @
               (frame_path (EXTRACTED_IMAGES_DIR env) (trunc v2), frame2) # W2 \<and>
           extracted_files (snd (extract_loop env (pre @ tp1 # mid @ tp2 # post) s)) =
             extracted_files s @ E0 @ frame_path (EXTRACTED_IMAGES_DIR env) (trunc v1) # E1 @
               frame_path (EXTRACTED_IMAGES_DIR env) (trunc v2) # E2"
proof -
  let ?p1 = "frame_path (EXTRACTED_IMAGES_DIR env) (trunc v1)"
  let ?p2 = "frame_path (EXTRACTED_IMAGES_DIR env) (trunc v2)"
  obtain e1 s1 where pre: "extract_loop env pre s = (e1, s1)"
    by (cases "extract_loop env pre s")
  from ok pre have e1: "e1 = None"
    by (cases e1) (simp_all add: loop_append)
  from loop_grows [of env pre s] pre obtain W0 E0
    where g0: "writes s1 = writes s @ W0" "extracted_files s1 = extracted_files s @ E0" by auto
  define s1' where "s1' = s1\<lparr>seeks := seeks s1 @ [trunc (v1 * frames_per_second env)],
      writes := writes s1 @ [(?p1, frame1)], extracted_files := extracted_files s1 @ [?p1]\<rparr>"
  have st1: "extract_step env tp1 s1 = (None, s1')"
    unfolding s1'_def by (rule step_saved [OF t1 f1])
  obtain e2 s2 where mid: "extract_loop env mid s1' = (e2, s2)"
    by (cases "extract_loop env mid s1'")
  have whole1: "extract_loop env (pre @ tp1 # mid @ tp2 # post) s =
      (case extract_loop env mid s1' of
         (Some e, s') \<Rightarrow> (Some e, s')
       | (None, s') \<Rightarrow> extract_loop env (tp2 # post) s')"
    using pre e1 st1 by (simp add: loop_append)
  from ok whole1 mid have e2: "e2 = None" by (cases e2) simp_all
  from loop_grows [of env mid s1'] mid obtain W1 E1
    where g1: "writes s2 = writes s1' @ W1" "extracted_files s2 = extracted_files s1' @ E1" by auto
  define s2' where "s2' = s2\<lparr>seeks := seeks s2 @ [trunc (v2 * frames_per_second env)],
      writes := writes s2 @ [(?p2, frame2)], extracted_files := extracted_files s2 @ [?p2]\<rparr>"
  have st2: "extract_step env tp2 s2 = (None, s2')"
    unfolding s2'_def by (rule step_saved [OF t2 f2])
  have whole2: "extract_loop env (pre @ tp1 # mid @ tp2 # post) s = extract_loop env post s2'"
    using whole1 mid e2 st2 by simp
  from loop_grows [of env post s2'] obtain W2 E2
    where g2: "writes (snd (extract_loop env post s2')) = writes s2' @ W2"
      "extracted_files (snd (extract_loop env post s2')) = extracted_files s2' @ E2" by auto
  have w: "writes (snd (extract_loop env (pre @ tp1 # mid @ tp2 # post) s)) =
      writes s @ W0 @ (?p1, frame1) # W1 @ (?p2, frame2) # W2"
    using whole2 g2(1) g1(1) g0(1) by (simp add: s2'_def s1'_def)
  have x: "extracted_files (snd (extract_loop env (pre @ tp1 # mid @ tp2 # post) s)) =
      extracted_files s @ E0 @ ?p1 # E1 @ ?p2 # E2"
    using whole2 g2(2) g1(2) g0(2) by (simp add: s2'_def s1'_def)
  from w x show ?thesis by blast
qed

lemma file_system_last_write:
  "p \<notin> fst ` set W \<Longrightarrow> file_system (V @ (p, f) # W) p = Some f"
proof -
  assume "p \<notin> fst ` set W"
  then have "map_of (rev W) p = None"
    by (simp add: map_of_eq_None_iff)
  then show ?thesis
    by (simp add: file_system_def map_add_def)
qed

text \<open>
  C10. The file a frame is written to is named from the integer part of the offset alone.
  In a call that returns, two time points of the batch that parse to finite offsets with
  the same integer part and whose frames both decode are written to one and the same
  path, the later write after the earlier, and that path is appended to
  \<open>extracted_files\<close> once for each; unless a still later offset writes there again, the
  file holds the later of the two frames.
\<close>

theorem same_second_same_file:
  assumes "fst (extract_frames_from_video env (pre @ tp1 # mid @ tp2 # post)) = Returned dir"
    and "time_in_seconds (to_float env) tp1 = Some (Finite v1)"
    and "read_frame env (trunc (v1 * frames_per_second env)) = Some frame1"
    and "time_in_seconds (to_float env) tp2 = Some (Finite v2)"
    and "read_frame env (trunc (v2 * frames_per_second env)) = Some frame2"
    and "trunc v1 = trunc v2"
  shows "\<exists>W0 W1 W2 E0 E1 E2.
           writes (snd (extract_frames_from_video env (pre @ tp1 # mid @ tp2 # post))) =
             W0 @ (frame_path dir (trunc v1), frame1) # W1 @ (frame_path dir (trunc v1), frame2) # W2 \<and>
           extracted_files (snd (extract_frames_from_video env (pre @ tp1 # mid @ tp2 # post))) =
             E0 @ frame_path dir (trunc v1) # E1 @ frame_path dir (trunc v1) # E2 \<and>
           (frame_path dir (trunc v1) \<notin> fst ` set W2 \<longrightarrow>
              file_system (writes (snd (extract_frames_from_video env (pre @ tp1 # mid @ tp2 # post))))
                (frame_path dir (trunc v1)) = Some frame2)"
proof -
  let ?tps = "pre @ tp1 # mid @ tp2 # post"
  let ?p = "frame_path dir (trunc v1)"
  obtain e s where run: "extract_loop env ?tps extract_start = (e, s)"
    by (cases "extract_loop env ?tps extract_start")
  from assms(1) have env_ok: "path_exists env" "makedirs_ok env" "is_opened env"
    by (auto simp: extract_frames_from_video_def split: if_splits)
  with assms(1) run have e: "e = None" and dir: "dir = EXTRACTED_IMAGES_DIR env"
    by (cases e; simp add: extract_frames_from_video_def)+
  from run e have "fst (extract_loop env ?tps extract_start) = None" by simp
  from loop_two_saved [OF this assms(2) assms(3) assms(4) assms(5)] run assms(6) dir
  obtain W0 W1 W2 E0 E1 E2
    where w: "writes s = W0 @ (?p, frame1) # W1 @ (?p, frame2) # W2"
      and x: "extracted_files s = E0 @ ?p # E1 @ ?p # E2"
    by (auto simp: extract_start_def)
  have fin: "snd (extract_frames_from_video env ?tps) = s\<lparr>released := True\<rparr>"
    using run e env_ok by (simp add: extract_frames_from_video_def)
  have fs: "?p \<notin> fst ` set W2 \<longrightarrow> file_system (writes s) ?p = Some frame2"
  proof
    assume "?p \<notin> fst ` set W2"
    from file_system_last_write [OF this, of "W0 @ (?p, frame1) # W1" frame2] w
    show "file_system (writes s) ?p = Some frame2" by simp
  qed
  from w x fs fin show ?thesis by (simp del: append_assoc) blast
qed

theorem same_second_same_file_witness:
  "fst (extract_frames_from_video trailer ([] @ ''00:01.2'' # [] @ ''00:01.8'' # [])) =
     Returned ''extracted_images'' \<and>
   time_in_seconds (to_float trailer) ''00:01.2'' = Some (Finite 1.2) \<and>
   read_frame trailer (trunc (1.2 * frames_per_second trailer)) = Some 30 \<and>
   time_in_seconds (to_float trailer) ''00:01.8'' = Some (Finite 1.8) \<and>
   read_frame trailer (trunc (1.8 * frames_per_second trailer)) = Some 45 \<and>
   trunc 1.2 = trunc 1.8 \<and>
   frame_path ''extracted_images'' (trunc 1.2) = ''extracted_images/frame_1s.jpg'' \<and>
   (\<exists>W0 W1 W2 E0 E1 E2.
      writes (snd (extract_frames_from_video trailer ([] @ ''00:01.2'' # [] @ ''00:01.8'' # []))) =
        W0 @ (''extracted_images/frame_1s.jpg'', 30) # W1 @ (''extracted_images/frame_1s.jpg'', 45) # W2 \<and>
      extracted_files (snd (extract_frames_from_video trailer ([] @ ''00:01.2'' # [] @ ''00:01.8'' # []))) =
        E0 @ ''extracted_images/frame_1s.jpg'' # E1 @ ''extracted_images/frame_1s.jpg'' # E2)"
proof -
  have h1: "fst (extract_frames_from_video trailer ([] @ ''00:01.2'' # [] @ ''00:01.8'' # [])) =
     Returned ''extracted_images''"
    by (simp add: trailer_run_defs Let_def show_nat_digit digit_char_def)
  have h2: "time_in_seconds (to_float trailer) ''00:01.2'' = Some (Finite 1.2)"
    and h3: "read_frame trailer (trunc (1.2 * frames_per_second trailer)) = Some 30"
    and h4: "time_in_seconds (to_float trailer) ''00:01.8'' = Some (Finite 1.8)"
    and h5: "read_frame trailer (trunc (1.8 * frames_per_second trailer)) = Some 45"
    and h6: "trunc 1.2 = trunc 1.8"
    by (simp_all add: trailer_run_defs)
  have fp: "frame_path ''extracted_images'' (trunc 1.2) = ''extracted_images/frame_1s.jpg''"
    by (simp add: trunc_def frame_path_def path_join_def show_int_def show_nat_digit digit_char_def)
  from same_second_same_file [OF h1 h2 h3 h4 h5 h6] obtain W0 W1 W2 E0 E1 E2 where
    "writes (snd (extract_frames_from_video trailer ([] @ ''00:01.2'' # [] @ ''00:01.8'' # []))) =
        W0 @ (frame_path ''extracted_images'' (trunc 1.2), 30) # W1 @
          (frame_path ''extracted_images'' (trunc 1.2), 45) # W2"
    "extracted_files (snd (extract_frames_from_video trailer ([] @ ''00:01.2'' # [] @ ''00:01.8'' # []))) =
        E0 @ frame_path ''extracted_images'' (trunc 1.2) # E1 @
          frame_path ''extracted_images'' (trunc 1.2) # E2"
    by blast
  then have "\<exists>W0 W1 W2 E0 E1 E2.
      writes (snd (extract_frames_from_video trailer ([] @ ''00:01.2'' # [] @ ''00:01.8'' # []))) =
        W0 @ (''extracted_images/frame_1s.jpg'', 30) # W1 @ (''extracted_images/frame_1s.jpg'', 45) # W2 \<and>
      extracted_files (snd (extract_frames_from_video trailer ([] @ ''00:01.2'' # [] @ ''00:01.8'' # []))) =
        E0 @ ''extracted_images/frame_1s.jpg'' # E1 @ ''extracted_images/frame_1s.jpg'' # E2"
    unfolding fp by blast
  with h1 h2 h3 h4 h5 h6 fp show ?thesis by blast
qed

subsection \<open>The poll loop\<close>

lemma poll_loop_returns_active:
  assumes "poll_loop state_at s = Some s'"
  shows "\<exists>k. state_at k = ACTIVE"
proof (rule poll_loop.raw_induct [where P = "\<lambda>state_at s s'. \<exists>k. state_at k = ACTIVE", OF _ assms])
  fix poll_loop :: "(nat \<Rightarrow> file_state) \<Rightarrow> poll_state \<Rightarrow> poll_state option"
    and state_at s y
  assume ih: "\<And>st b y. poll_loop st b = Some y \<Longrightarrow> \<exists>k. st k = ACTIVE"
    and body: "(if state_at (retries s) \<noteq> ACTIVE
      then poll_loop state_at
            (s\<lparr>progress := progress s @ [(retries s + 1, max_retries)],
                 slept := slept s + 15, retries := retries s + 1\<rparr>)
      else Some s) = Some y"
  show "\<exists>k. state_at k = ACTIVE"
  proof (cases "state_at (retries s) = ACTIVE")
    case True
    then show ?thesis by blast
  next
    case False
    with body ih show ?thesis by simp
  qed
qed

text \<open>
  C9 (what the code does). The loop tests only the file's state; \<^verbatim>\<open>max_retries\<close> appears in
  the progress line and nowhere else. A file that stays in \<^verbatim>\<open>PROCESSING\<close> keeps the loop
  running for ever, and a file that turns \<^verbatim>\<open>ACTIVE\<close> at the twelfth look is waited for
  through twelve retries, two more than \<^verbatim>\<open>max_retries\<close>.
\<close>

theorem poll_loop_unbounded:
  "poll_loop (\<lambda>k. PROCESSING) poll_start = None \<and>
   map_option retries (poll_loop (\<lambda>k. if k < 12 then PROCESSING else ACTIVE) poll_start) = Some 12 \<and>
   max_retries < 12"
proof -
  have "poll_loop (\<lambda>k. PROCESSING) poll_start = None"
  proof (cases "poll_loop (\<lambda>k. PROCESSING) poll_start")
    case None
    then show ?thesis .
  next
    case (Some s')
    from poll_loop_returns_active [OF this] show ?thesis by simp
  qed
  moreover have "map_option retries (poll_loop (\<lambda>k. if k < 12 then PROCESSING else ACTIVE) poll_start) = Some 12"
    unfolding poll_start_def
    by (subst poll_loop.simps, simp)+
  ultimately show ?thesis by (simp add: max_retries_def)
qed

end
